theory Spec2Isabelle
  imports Main "HOL-Library.AList"
begin

section \<open>Text\<close>

text \<open>
  A Python \<open>str\<close> is modelled as a \<open>string\<close>, each \<open>char\<close> standing for one code
  point below 256. The character classes below are Python's own on that range:
  \<open>isspace\<close> is what \<open>str.strip()\<close> removes and what \<open>\<^verbatim>\<open>\S\<close>\<close> excludes, \<open>isword\<close> is \<open>\<^verbatim>\<open>\w\<close>\<close> of
  the \<open>re\<close> module on a \<open>str\<close> pattern.
\<close>

definition isspace :: "char \<Rightarrow> bool" where
  "isspace c =
     (let n = (of_char c :: nat)
      in (9 \<le> n \<and> n \<le> 13) \<or> (28 \<le> n \<and> n \<le> 32) \<or> n = 133 \<or> n = 160)"

definition isword :: "char \<Rightarrow> bool" where
  "isword c =
     (let n = (of_char c :: nat)
      in (48 \<le> n \<and> n \<le> 57) \<or> (65 \<le> n \<and> n \<le> 90) \<or> n = 95 \<or> (97 \<le> n \<and> n \<le> 122)
         \<or> n = 170 \<or> n = 178 \<or> n = 179 \<or> n = 181 \<or> n = 185 \<or> n = 186
         \<or> (188 \<le> n \<and> n \<le> 190) \<or> (192 \<le> n \<and> n \<le> 214) \<or> (216 \<le> n \<and> n \<le> 246)
         \<or> 248 \<le> n)"

definition strip :: "string \<Rightarrow> string" where
  \<comment> \<open>\<open>s.strip()\<close>\<close>
  "strip s = rev (dropWhile isspace (rev (dropWhile isspace s)))"

fun join :: "string \<Rightarrow> string list \<Rightarrow> string" where
  \<comment> \<open>\<open>sep.join(xs)\<close>\<close>
  "join sep [] = []"
| "join sep [x] = x"
| "join sep (x # y # zs) = x @ sep @ join sep (y # zs)"

fun findall_nonspace :: "string \<Rightarrow> string \<Rightarrow> string list" where
  \<comment> \<open>\<open>re.findall(r'\S+', s)\<close>; the first argument is the run read so far\<close>
  "findall_nonspace w [] = (if w = [] then [] else [w])"
| "findall_nonspace w (c # cs) =
     (if isspace c then (if w = [] then findall_nonspace [] cs else w # findall_nonspace [] cs)
      else findall_nonspace (w @ [c]) cs)"

fun after_prefix :: "string \<Rightarrow> string \<Rightarrow> string option" where
  \<comment> \<open>what follows the literal \<open>p\<close> at the start of the text, if the text starts with it\<close>
  "after_prefix [] s = Some s"
| "after_prefix (p # ps) [] = None"
| "after_prefix (p # ps) (c # cs) = (if p = c then after_prefix ps cs else None)"

section \<open>Errors\<close>

datatype error = TypeError | AttributeError | KeyError | ValueError

section \<open>The parsed page\<close>

text \<open>
  \<open>BeautifulSoup(html, 'html.parser')\<close> is the library's parser; the functions of
  \<open>main.py\<close> work on the tree it returns, and the model starts from that tree. A node is
  a tag with its name, attributes and children, a text node (\<open>NavigableString\<close>), or one of
  the string kinds that \<open>.text\<close> leaves out (comments, declarations, script and style text).
  The attributes are the tag's \<open>attrs\<close> dictionary. The tree builder stores the value of
  \<open>class\<close> as the list of its whitespace-separated parts; the model keeps the attribute text
  and splits it where the class is compared.
\<close>

datatype node =
    Tag string "string \<rightharpoonup> string" "node list"
  | NavigableString string
  | Comment string

fun descendants :: "node \<Rightarrow> node list" where
  \<comment> \<open>\<open>tag.descendants\<close>: every node below the tag, in document order\<close>
  "descendants (Tag n a cs) = concat (map (\<lambda>c. c # descendants c) cs)"
| "descendants (NavigableString s) = []"
| "descendants (Comment s) = []"

fun get_text :: "node \<Rightarrow> string" where
  \<comment> \<open>\<open>tag.text\<close>: the text nodes below the tag, concatenated in document order\<close>
  "get_text (Tag n a cs) = concat (map get_text cs)"
| "get_text (NavigableString s) = s"
| "get_text (Comment s) = []"

definition class_matches :: "string \<Rightarrow> string list \<Rightarrow> bool" where
  \<comment> \<open>the search value against a multi-valued attribute: one of the values, or all of
      them joined by single spaces\<close>
  "class_matches want vals = (want \<in> set vals \<or> join '' '' vals = want)"

fun matches :: "string \<Rightarrow> string \<Rightarrow> node \<Rightarrow> bool" where
  \<comment> \<open>the filter of \<open>find_all(name, class_=cls)\<close>\<close>
  "matches name cls (Tag n a cs) =
     (n = name \<and> (case a ''class'' of None \<Rightarrow> False
                  | Some v \<Rightarrow> class_matches cls (findall_nonspace [] v)))"
| "matches name cls (NavigableString s) = False"
| "matches name cls (Comment s) = False"

definition find_all :: "string \<Rightarrow> string \<Rightarrow> node \<Rightarrow> node list" where
  "find_all name cls root = filter (matches name cls) (descendants root)"

definition find_tag :: "string \<Rightarrow> string \<Rightarrow> node \<Rightarrow> node option" where
  \<comment> \<open>the first match, or \<open>None\<close>\<close>
  "find_tag name cls root = (case find_all name cls root of [] \<Rightarrow> None | x # _ \<Rightarrow> Some x)"

fun getitem :: "node \<Rightarrow> string \<Rightarrow> error + string" where
  \<comment> \<open>\<open>tag[key]\<close>\<close>
  "getitem (Tag n a cs) key = (case a key of None \<Rightarrow> Inl KeyError | Some v \<Rightarrow> Inr v)"
| "getitem (NavigableString s) key = Inl TypeError"
| "getitem (Comment s) key = Inl TypeError"

section \<open>parse_page\<close>

text \<open>
  A record is a Python \<open>dict\<close> from text to text, which keeps its keys in insertion order:
  an association list, \<open>d[k] = v\<close> being \<open>AList.update k v d\<close>.
\<close>

type_synonym computer = "(string \<times> string) list"

definition parse_block :: "node \<Rightarrow> error + computer" where
  \<comment> \<open>the body of the loop of \<open>parse_page\<close>. Subscripting \<open>None\<close> raises \<open>TypeError\<close>,
      reading \<open>.text\<close> of \<open>None\<close> raises \<open>AttributeError\<close>.\<close>
  "parse_block block =
     (case find_tag ''a'' ''title'' block of
        None \<Rightarrow> Inl TypeError
      | Some a \<Rightarrow>
     (case getitem a ''title'' of
        Inl e \<Rightarrow> Inl e
      | Inr name \<Rightarrow>
     (case find_tag ''p'' ''description card-text'' block of
        None \<Rightarrow> Inl AttributeError
      | Some p \<Rightarrow>
     (case find_tag ''h4'' ''price'' block of
        None \<Rightarrow> Inl AttributeError
      | Some h \<Rightarrow>
        Inr (AList.update ''Price'' (strip (get_text h))
              (AList.update ''Description'' (strip (get_text p))
                (AList.update ''Name'' name [])))))))"

fun parse_blocks :: "node list \<Rightarrow> computer list \<Rightarrow> error + computer list" where
  \<comment> \<open>the loop over \<open>computer_blocks\<close>, with \<open>computers_data\<close> as it stands\<close>
  "parse_blocks [] computers_data = Inr computers_data"
| "parse_blocks (block # blocks) computers_data =
     (case parse_block block of
        Inl e \<Rightarrow> Inl e
      | Inr computer \<Rightarrow> parse_blocks blocks (computers_data @ [computer]))"

definition parse_page :: "node \<Rightarrow> error + computer list" where
  "parse_page soup = parse_blocks (find_all ''div'' ''card-body'' soup) []"

section \<open>get_pagination_links\<close>

definition host_char :: "char \<Rightarrow> bool" where
  \<comment> \<open>the class \<open>\<^verbatim>\<open>[\w.-]\<close>\<close>\<close>
  "host_char c = (isword c \<or> c = CHR ''.'' \<or> c = CHR ''-'')"

definition re_match_group1 :: "string \<Rightarrow> string option" where
  \<comment> \<open>\<open>re.match(r'(https?://[\w.-]+)/.*', url)\<close>: \<open>None\<close>, or group 1 of the match. The class
      excludes \<open>/\<close>, so the only run of it that a \<open>/\<close> can follow is the longest one; \<open>.*\<close>
      matches the empty text, and \<open>re.match\<close> need not reach the end of the URL.\<close>
  "re_match_group1 url =
     (case after_prefix ''http'' url of
        None \<Rightarrow> None
      | Some r \<Rightarrow>
          let (scheme, r1) =
                (case r of [] \<Rightarrow> (''http'', r)
                 | c # t \<Rightarrow> if c = CHR ''s'' then (''https'', t) else (''http'', r))
          in (case after_prefix ''://'' r1 of
                None \<Rightarrow> None
              | Some r2 \<Rightarrow>
                  let host = takeWhile host_char r2; rest = dropWhile host_char r2
                  in if host = [] then None
                     else (case rest of [] \<Rightarrow> None
                           | c # _ \<Rightarrow> if c = CHR ''/'' then Some (scheme @ ''://'' @ host)
                                      else None)))"

fun collect_links :: "string option \<Rightarrow> node list \<Rightarrow> string list \<Rightarrow> error + string list" where
  \<comment> \<open>the loop over \<open>page_links_href\<close>, with \<open>page_links\<close> as it stands; \<open>matches.group(1)\<close>
      on \<open>None\<close> raises \<open>AttributeError\<close>, after \<open>link['href']\<close> has been read\<close>
  "collect_links m [] page_links = Inr page_links"
| "collect_links m (link # links) page_links =
     (case getitem link ''href'' of
        Inl e \<Rightarrow> Inl e
      | Inr link_atr \<Rightarrow>
          (case m of
             None \<Rightarrow> Inl AttributeError
           | Some g \<Rightarrow> collect_links m links (page_links @ [g @ link_atr])))"

definition get_pagination_links :: "node \<Rightarrow> string \<Rightarrow> error + string list" where
  "get_pagination_links soup url =
     (let page_links = [url];
          m = re_match_group1 url
      in case find_tag ''ul'' ''pagination'' soup of
           Some pagination \<Rightarrow> collect_links m (find_all ''a'' ''page-link'' pagination) page_links
         | None \<Rightarrow> Inr [])"

section \<open>Files\<close>

text \<open>
  The files are a map from names to the text written to them: the text as the program
  hands it to the text stream, before it is encoded as UTF-8. \<open>open(filename, 'w')\<close>
  creates the file or empties it (the model takes it that the file can be opened), and the
  \<open>with\<close> block closes it on the way out, also when an exception leaves the block, so that
  the text written before the exception stays. A call returns the files as it leaves them,
  with \<open>Inr ()\<close> when it returns and \<open>Inl e\<close> when it raises \<open>e\<close>.
\<close>

type_synonym files = "string \<rightharpoonup> string"

definition dquote :: char where
  "dquote = CHR 0x22"

definition backslash :: char where
  "backslash = CHR 0x5C"

definition CR :: char where
  "CR = CHR 0x0D"

definition LF :: char where
  "LF = CHR 0x0A"

section \<open>save_to_csv\<close>

text \<open>
  \<open>csv.writer\<close> with the default dialect: fields separated by commas, a field quoted when
  it holds a comma, a quote or a line break, quotes doubled inside it, rows ended by CR LF;
  a row of one empty field is written as a pair of quotes.
\<close>

definition csv_field :: "string \<Rightarrow> string" where
  "csv_field s =
     (if \<exists>c \<in> set s. c = CHR '','' \<or> c = dquote \<or> c = CR \<or> c = LF
      then [dquote] @ concat (map (\<lambda>c. if c = dquote then [c, c] else [c]) s) @ [dquote]
      else s)"

definition csv_row :: "string list \<Rightarrow> string" where
  "csv_row fields =
     (if fields = [[]] then [dquote, dquote] else join '','' (map csv_field fields)) @ [CR, LF]"

definition dict_get :: "computer \<Rightarrow> string \<Rightarrow> string \<Rightarrow> string" where
  \<comment> \<open>\<open>d.get(key, restval)\<close>\<close>
  "dict_get d key restval = (case map_of d key of None \<Rightarrow> restval | Some v \<Rightarrow> v)"

definition dict_to_list :: "string list \<Rightarrow> computer \<Rightarrow> error + string list" where
  \<comment> \<open>\<open>DictWriter._dict_to_list\<close> with \<open>extrasaction='raise'\<close> and \<open>restval=''\<close>: a key of the
      row that is no field name raises \<open>ValueError\<close>; a field name the row lacks gives an
      empty cell\<close>
  "dict_to_list fieldnames rowdict =
     (if \<exists>k \<in> set (map fst rowdict). k \<notin> set fieldnames then Inl ValueError
      else Inr (map (\<lambda>key. dict_get rowdict key []) fieldnames))"

fun write_rows :: "string list \<Rightarrow> computer list \<Rightarrow> string \<Rightarrow> (error + unit) \<times> string" where
  \<comment> \<open>the inner loop: \<open>writer.writerow(row)\<close> for each row of one batch, onto the text
      written so far\<close>
  "write_rows fieldnames [] csvfile = (Inr (), csvfile)"
| "write_rows fieldnames (row # rows) csvfile =
     (case dict_to_list fieldnames row of
        Inl e \<Rightarrow> (Inl e, csvfile)
      | Inr cells \<Rightarrow> write_rows fieldnames rows (csvfile @ csv_row cells))"

fun write_batches :: "string list \<Rightarrow> computer list list \<Rightarrow> string \<Rightarrow> (error + unit) \<times> string" where
  \<comment> \<open>the outer loop over \<open>data\<close>\<close>
  "write_batches fieldnames [] csvfile = (Inr (), csvfile)"
| "write_batches fieldnames (rows # data) csvfile =
     (case write_rows fieldnames rows csvfile of
        (Inl e, csvfile') \<Rightarrow> (Inl e, csvfile')
      | (Inr u, csvfile') \<Rightarrow> write_batches fieldnames data csvfile')"

definition save_to_csv :: "computer list list \<Rightarrow> string \<Rightarrow> files \<Rightarrow> (error + unit) \<times> files" where
  "save_to_csv data filename fs =
     (case data of
        [] \<Rightarrow> (Inr (), fs)
      | first # _ \<Rightarrow>
          let fieldnames = (case first of [] \<Rightarrow> [] | row # _ \<Rightarrow> map fst row);
              (res, csvfile) = write_batches fieldnames data (csv_row fieldnames)
          in (res, fs(filename \<mapsto> csvfile)))"

section \<open>save_to_json\<close>

text \<open>
  \<open>json.dump(flat_data, jsonfile, ensure_ascii=False, indent=4)\<close> on a list of dictionaries
  from text to text. With \<open>ensure_ascii=False\<close> the encoder escapes the quote, the
  backslash and the control characters below 0x20, and writes every other character as it is.
\<close>

definition hex_digit :: "nat \<Rightarrow> char" where
  "hex_digit n = ''0123456789abcdef'' ! n"

definition json_escape :: "char \<Rightarrow> string" where
  "json_escape c =
     (if c = dquote then [backslash, dquote]
      else if c = backslash then [backslash, backslash]
      else if c = LF then [backslash, CHR ''n'']
      else if c = CR then [backslash, CHR ''r'']
      else if c = CHR 0x09 then [backslash, CHR ''t'']
      else if c = CHR 0x08 then [backslash, CHR ''b'']
      else if c = CHR 0x0C then [backslash, CHR ''f'']
      else if (of_char c :: nat) < 32
        then [backslash, CHR ''u'', CHR ''0'', CHR ''0'',
              hex_digit (of_char c div 16), hex_digit (of_char c mod 16)]
      else [c])"

definition encode_basestring :: "string \<Rightarrow> string" where
  "encode_basestring s = [dquote] @ concat (map json_escape s) @ [dquote]"

definition newline_indent :: "nat \<Rightarrow> string" where
  \<comment> \<open>a line break and \<open>level\<close> times the indent of four spaces\<close>
  "newline_indent level = LF # replicate (4 * level) CHR '' ''"

definition encode_item :: "string \<times> string \<Rightarrow> string" where
  "encode_item kv = encode_basestring (fst kv) @ '': '' @ encode_basestring (snd kv)"

definition encode_dict :: "computer \<Rightarrow> string" where
  \<comment> \<open>a dictionary at indent level 1\<close>
  "encode_dict dct =
     (if dct = [] then ''{}''
      else ''{'' @ newline_indent 2 @ join ('','' @ newline_indent 2) (map encode_item dct)
           @ newline_indent 1 @ ''}'')"

definition encode_list :: "computer list \<Rightarrow> string" where
  \<comment> \<open>the list at indent level 0\<close>
  "encode_list lst =
     (if lst = [] then ''[]''
      else ''['' @ newline_indent 1 @ join ('','' @ newline_indent 1) (map encode_dict lst)
           @ newline_indent 0 @ '']'')"

definition save_to_json :: "computer list list \<Rightarrow> string \<Rightarrow> files \<Rightarrow> (error + unit) \<times> files" where
  "save_to_json data filename fs =
     (case data of
        [] \<Rightarrow> (Inr (), fs)
      | _ # _ \<Rightarrow>
          let flat_data = concat data
          in (Inr (), fs(filename \<mapsto> encode_list flat_data)))"

section \<open>Reading the JSON file back\<close>

text \<open>
  \<open>json.loads\<close> on the documents that \<open>save_to_json\<close> can write: an array of objects whose
  members are strings. The functions follow \<open>json.decoder\<close>: \<open>scanstring\<close> reads a string
  after its opening quote, the loop of \<open>JSONObject\<close> reads the members, the loop of
  \<open>JSONArray\<close> the items, and \<open>loads\<close> rejects anything but whitespace after the value.
  \<open>None\<close> stands for a \<open>JSONDecodeError\<close>, and also for a document with any other kind of
  value or with an escaped code point above 255, which the model does not cover.
\<close>

definition json_ws :: "char \<Rightarrow> bool" where
  "json_ws c = (c = CHR '' '' \<or> c = CHR 0x09 \<or> c = LF \<or> c = CR)"

definition skip_ws :: "string \<Rightarrow> string" where
  "skip_ws s = dropWhile json_ws s"

definition hex_value :: "char \<Rightarrow> nat option" where
  "hex_value c =
     (let n = (of_char c :: nat)
      in if 48 \<le> n \<and> n \<le> 57 then Some (n - 48)
         else if 97 \<le> n \<and> n \<le> 102 then Some (n - 87)
         else if 65 \<le> n \<and> n \<le> 70 then Some (n - 55)
         else None)"

definition unescape :: "char \<Rightarrow> char option" where
  \<comment> \<open>the table \<open>BACKSLASH\<close>\<close>
  "unescape e =
     (if e = dquote then Some dquote
      else if e = backslash then Some backslash
      else if e = CHR ''/'' then Some CHR ''/''
      else if e = CHR ''b'' then Some (CHR 0x08)
      else if e = CHR ''f'' then Some (CHR 0x0C)
      else if e = CHR ''n'' then Some LF
      else if e = CHR ''r'' then Some CR
      else if e = CHR ''t'' then Some (CHR 0x09)
      else None)"

definition prepend :: "'a \<Rightarrow> ('a list \<times> string) option \<Rightarrow> ('a list \<times> string) option" where
  \<comment> \<open>one more element in front of what the rest of the text gives\<close>
  "prepend x res = map_option (\<lambda>(xs, rest). (x # xs, rest)) res"

fun scanstring :: "string \<Rightarrow> (string \<times> string) option" where
  \<comment> \<open>the text after an opening quote: the string up to the closing quote, decoded, and the
      text after that quote; a raw control character is an error (\<open>strict\<close>)\<close>
  "scanstring [] = None"
| "scanstring (c # cs) =
     (if c = dquote then Some ([], cs)
      else if c = backslash then
        (case cs of
           [] \<Rightarrow> None
         | e # r \<Rightarrow>
             if e = CHR ''u'' then
               (case r of
                  h1 # h2 # h3 # h4 # r' \<Rightarrow>
                    (case (hex_value h1, hex_value h2, hex_value h3, hex_value h4) of
                       (Some a, Some b, Some c', Some d) \<Rightarrow>
                         let n = ((a * 16 + b) * 16 + c') * 16 + d
                         in if n < 256 then prepend (char_of n) (scanstring r') else None
                     | _ \<Rightarrow> None)
                | _ \<Rightarrow> None)
             else (case unescape e of
                     None \<Rightarrow> None
                   | Some ch \<Rightarrow> prepend ch (scanstring r)))
      else if (of_char c :: nat) < 32 then None
      else prepend c (scanstring cs))"

function parse_pairs :: "string \<Rightarrow> ((string \<times> string) list \<times> string) option" where
  \<comment> \<open>the loop of \<open>JSONObject\<close>, from the text after the opening quote of a key: the members
      up to the closing brace, and the text after the brace\<close>
  "parse_pairs s =
     (case scanstring s of
        None \<Rightarrow> None
      | Some (key, r) \<Rightarrow>
     (case skip_ws r of
        [] \<Rightarrow> None
      | c # r1 \<Rightarrow>
          if c \<noteq> CHR '':'' then None
          else
     (case skip_ws r1 of
        [] \<Rightarrow> None
      | q # r2 \<Rightarrow>
          if q \<noteq> dquote then None
          else
     (case scanstring r2 of
        None \<Rightarrow> None
      | Some (val, r3) \<Rightarrow>
     (case skip_ws r3 of
        [] \<Rightarrow> None
      | d # r4 \<Rightarrow>
          if d = CHR ''}'' then Some ([(key, val)], r4)
          else if d \<noteq> CHR '','' then None
          else
     (case skip_ws r4 of
        [] \<Rightarrow> None
      | q' # r5 \<Rightarrow>
          if q' \<noteq> dquote then None
          else prepend (key, val) (parse_pairs r5)))))))"
  by pat_completeness auto
termination
proof (relation "measure length")
  show "wf (measure length)" by simp
next
  have scan: "length r < length s" if "scanstring s = Some (x, r)" for s x r
    using that
  proof (induction s arbitrary: x r rule: scanstring.induct)
    case 1
    then show ?case by simp
  next
    case (2 c cs)
    then show ?case
      by (fastforce simp: prepend_def Let_def split: if_splits list.splits option.splits)
  qed
  have ws: "length (skip_ws t) \<le> length t" for t
    by (simp add: skip_ws_def length_dropWhile_le)
  fix s x key r c r1 q r2 xa val r3 d r4 q' r5
  assume a: "scanstring s = Some x" "(key, r) = x" "skip_ws r = c # r1" "skip_ws r1 = q # r2"
    "scanstring r2 = Some xa" "(val, r3) = xa" "skip_ws r3 = d # r4" "skip_ws r4 = q' # r5"
  from a(1,2) have 1: "length r < length s" using scan [of s key r] by simp
  from a(3) ws [of r] have 2: "length r1 < length r" by simp
  from a(4) ws [of r1] have 3: "length r2 < length r1" by simp
  from a(5,6) have 4: "length r3 < length r2" using scan [of r2 val r3] by simp
  from a(7) ws [of r3] have 5: "length r4 < length r3" by simp
  from a(8) ws [of r4] have 6: "length r5 < length r4" by simp
  from 1 2 3 4 5 6 show "(r5, s) \<in> measure length" by simp
qed

definition dict_of_pairs :: "(string \<times> string) list \<Rightarrow> computer" where
  \<comment> \<open>\<open>dict(pairs)\<close>: a key read again keeps its place and takes the later value\<close>
  "dict_of_pairs pairs = foldl (\<lambda>d (k, v). AList.update k v d) [] pairs"

definition parse_object :: "string \<Rightarrow> (computer \<times> string) option" where
  \<comment> \<open>\<open>JSONObject\<close>, from the text after the opening brace\<close>
  "parse_object s =
     (case skip_ws s of
        [] \<Rightarrow> None
      | c # r \<Rightarrow>
          if c = CHR ''}'' then Some ([], r)
          else if c = dquote
            then map_option (\<lambda>(pairs, rest). (dict_of_pairs pairs, rest)) (parse_pairs r)
          else None)"

function parse_items :: "string \<Rightarrow> (computer list \<times> string) option" where
  \<comment> \<open>the loop of \<open>JSONArray\<close>, from the first character of an item: the items up to the
      closing bracket, and the text after the bracket\<close>
  "parse_items s =
     (case s of
        [] \<Rightarrow> None
      | c # r \<Rightarrow>
          if c \<noteq> CHR ''{'' then None
          else
     (case parse_object r of
        None \<Rightarrow> None
      | Some (dct, r1) \<Rightarrow>
     (case skip_ws r1 of
        [] \<Rightarrow> None
      | c1 # r2 \<Rightarrow>
          if c1 = CHR '']'' then Some ([dct], r2)
          else if c1 \<noteq> CHR '','' then None
          else prepend dct (parse_items (skip_ws r2)))))"
  by pat_completeness auto
termination
proof (relation "measure length")
  show "wf (measure length)" by simp
next
  have ws: "length (skip_ws t) \<le> length t" for t
    by (simp add: skip_ws_def length_dropWhile_le)
  have wsD: "length u < length t" if "skip_ws t = c # u" for t c u
    using that ws [of t] by simp
  have scan: "length r < length s" if "scanstring s = Some (x, r)" for s x r
    using that
  proof (induction s arbitrary: x r rule: scanstring.induct)
    case 1
    then show ?case by simp
  next
    case (2 c cs)
    then show ?case
      by (fastforce simp: prepend_def Let_def split: if_splits list.splits option.splits)
  qed
  have pairs: "length r \<le> length s" if "parse_pairs s = Some (x, r)" for s x r
    using that
  proof (induction s arbitrary: x r rule: parse_pairs.induct)
    case (1 s)
    from "1.prems" obtain key t where k: "scanstring s = Some (key, t)"
      by (subst (asm) parse_pairs.simps) (auto split: option.splits)
    from "1.prems" k obtain r1 where r1: "skip_ws t = CHR '':'' # r1"
      by (subst (asm) parse_pairs.simps) (auto split: list.splits if_splits)
    from "1.prems" k r1 obtain r2 where r2: "skip_ws r1 = dquote # r2"
      by (subst (asm) parse_pairs.simps) (auto split: list.splits if_splits)
    from "1.prems" k r1 r2 obtain val r3 where v: "scanstring r2 = Some (val, r3)"
      by (subst (asm) parse_pairs.simps) (auto split: option.splits)
    from "1.prems" k r1 r2 v obtain d r4 where r4: "skip_ws r3 = d # r4"
      by (subst (asm) parse_pairs.simps) (auto split: list.splits)
    from scan [OF k] wsD [OF r1] wsD [OF r2] scan [OF v] wsD [OF r4]
    have len: "length r4 < length s" by simp
    show ?case
    proof (cases "d = CHR ''}''")
      case True
      with "1.prems" k r1 r2 v r4 have "r = r4"
        by (subst (asm) parse_pairs.simps) simp
      with len show ?thesis by simp
    next
      case False
      with "1.prems" k r1 r2 v r4 have d: "d = CHR '',''"
        by (subst (asm) parse_pairs.simps) (auto split: if_splits)
      from "1.prems" k r1 r2 v r4 d obtain r5 where r5: "skip_ws r4 = dquote # r5"
        by (subst (asm) parse_pairs.simps) (auto split: list.splits if_splits)
      from "1.prems" k r1 r2 v r4 d r5 obtain ps where ps: "parse_pairs r5 = Some (ps, r)"
        by (subst (asm) parse_pairs.simps) (auto simp: prepend_def)
      have "length r \<le> length r5"
        by (rule "1.IH" [OF k refl r1 _ r2 _ v refl r4 _ _ r5 _ ps]) (simp_all add: d)
      with wsD [OF r5] len show ?thesis by simp
    qed
  qed
  have obj: "length r \<le> length s" if "parse_object s = Some (x, r)" for s x r
  proof (cases "skip_ws s")
    case Nil
    with that show ?thesis by (simp add: parse_object_def)
  next
    case (Cons c u)
    from that Cons have "r = u \<or> (\<exists>ps. parse_pairs u = Some (ps, r))"
      by (auto simp: parse_object_def split: if_splits)
    with pairs wsD [OF Cons] show ?thesis by fastforce
  qed
  fix s c r x dct r1 c1 r2
  assume a: "s = c # r" "parse_object r = Some x" "(dct, r1) = x" "skip_ws r1 = c1 # r2"
  from a(2,3) have 1: "length r1 \<le> length r" using obj [of r dct r1] by simp
  from a(4) ws [of r1] have 2: "length r2 < length r1" by simp
  from ws [of r2] a(1) 1 2 show "(skip_ws r2, s) \<in> measure length" by simp
qed

definition json_loads :: "string \<Rightarrow> computer list option" where
  "json_loads s =
     (case skip_ws s of
        [] \<Rightarrow> None
      | c # r \<Rightarrow>
          if c \<noteq> CHR ''['' then None
          else
     (case (case skip_ws r of
              [] \<Rightarrow> None
            | c1 # r1 \<Rightarrow> if c1 = CHR '']'' then Some ([], r1) else parse_items (c1 # r1)) of
        None \<Rightarrow> None
      | Some (lst, rest) \<Rightarrow> if skip_ws rest = [] then Some lst else None))"

definition item_rest :: "string \<times> string \<Rightarrow> string" where
  \<comment> \<open>an encoded member after its opening quote\<close>
  "item_rest kv = tl (encode_item kv)"

definition dict_rest :: "computer \<Rightarrow> string" where
  \<comment> \<open>an encoded dictionary after its opening brace\<close>
  "dict_rest dct = tl (encode_dict dct)"

definition join_more :: "string \<Rightarrow> string list \<Rightarrow> string" where
  \<comment> \<open>what \<open>join\<close> writes after the first element\<close>
  "join_more sep xs = (if xs = [] then [] else sep @ join sep xs)"

section \<open>What the claims speak of\<close>

fun string_of :: "node \<Rightarrow> string" where
  \<comment> \<open>the text that a node holds itself: that of a text node, none for a tag or a comment\<close>
  "string_of (NavigableString s) = s"
| "string_of (Tag n a cs) = []"
| "string_of (Comment s) = []"

definition element_text :: "node \<Rightarrow> string" where
  \<comment> \<open>the text content of an element: the text nodes below it, in document order\<close>
  "element_text el = concat (map string_of (descendants el))"

definition trimmed :: "string \<Rightarrow> string \<Rightarrow> bool" where
  \<comment> \<open>\<open>t\<close> is \<open>s\<close> without its leading and trailing whitespace: what is cut off at both
      ends is whitespace, and \<open>t\<close> neither starts nor ends with whitespace\<close>
  "trimmed s t =
     ((\<exists>pre post. s = pre @ t @ post \<and> list_all isspace pre \<and> list_all isspace post)
      \<and> (t = [] \<or> (\<not> isspace (hd t) \<and> \<not> isspace (last t))))"

definition block_complete :: "node \<Rightarrow> bool" where
  \<comment> \<open>the block has its three sub-elements: an anchor of class title with a title, a
      description paragraph and a price heading\<close>
  "block_complete block =
     ((\<exists>a t. find_tag ''a'' ''title'' block = Some a \<and> getitem a ''title'' = Inr t)
      \<and> find_tag ''p'' ''description card-text'' block \<noteq> None
      \<and> find_tag ''h4'' ''price'' block \<noteq> None)"

definition block_record :: "node \<Rightarrow> computer \<Rightarrow> bool" where
  \<comment> \<open>the record of a block: the anchor's title, and the trimmed text content of the
      paragraph and of the heading\<close>
  "block_record block r =
     (\<exists>a p h t description price.
        find_tag ''a'' ''title'' block = Some a \<and> getitem a ''title'' = Inr t
        \<and> find_tag ''p'' ''description card-text'' block = Some p
        \<and> find_tag ''h4'' ''price'' block = Some h
        \<and> trimmed (element_text p) description
        \<and> trimmed (element_text h) price
        \<and> r = [(''Name'', t), (''Description'', description), (''Price'', price)])"

definition block_incomplete :: "node \<Rightarrow> bool" where
  \<comment> \<open>one of the three sub-elements is missing: no anchor of class title, an anchor
      without a title, no description paragraph, or no price heading\<close>
  "block_incomplete block =
     (find_tag ''a'' ''title'' block = None
      \<or> (\<exists>a. find_tag ''a'' ''title'' block = Some a \<and> getitem a ''title'' = Inl KeyError)
      \<or> find_tag ''p'' ''description card-text'' block = None
      \<or> find_tag ''h4'' ''price'' block = None)"

subsection \<open>Example pages and records\<close>

definition card :: "string \<Rightarrow> string \<Rightarrow> string \<Rightarrow> node" where
  \<comment> \<open>a product card as the target site writes it\<close>
  "card title description price =
     Tag ''div'' [''class'' \<mapsto> ''card-body'']
       [Tag ''div'' [''class'' \<mapsto> ''caption'']
          [Tag ''h4'' [''class'' \<mapsto> ''price float-end card-title pull-right'']
             [NavigableString price],
           Tag ''h4'' Map.empty
             [Tag ''a'' [''href'' \<mapsto> ''/product/1'', ''class'' \<mapsto> ''title'', ''title'' \<mapsto> title]
                [NavigableString ''...'']],
           Tag ''p'' [''class'' \<mapsto> ''description card-text''] [NavigableString description]]]"

definition thinkpad_page :: node where
  "thinkpad_page = Tag ''[document]'' Map.empty [card ''ThinkPad X1'' '' Fast laptop '' '' $999 '']"

definition rich_card :: node where
  \<comment> \<open>a card whose paragraph and heading hold nested tags and a comment\<close>
  "rich_card =
     Tag ''div'' [''class'' \<mapsto> ''card-body'']
       [Tag ''h4'' [''class'' \<mapsto> ''price''] [Comment ''was $9'', NavigableString [CHR 0x09, CHR ''$'', CHR ''7'', LF]],
        Tag ''a'' [''class'' \<mapsto> ''title'', ''title'' \<mapsto> ''Yoga''] [],
        Tag ''p'' [''class'' \<mapsto> ''description card-text'']
          [NavigableString ''  Thin '', Tag ''b'' Map.empty [NavigableString ''and''],
           Comment ''or'', NavigableString '' light '']]"

definition two_cards_page :: node where
  "two_cards_page =
     Tag ''[document]'' Map.empty
       [Tag ''div'' [''class'' \<mapsto> ''row'']
          [card ''Aspire'' [LF, CHR ''A'', CHR '' ''] '' $1'', Comment ''next'', rich_card]]"

definition no_price_page :: node where
  "no_price_page =
     Tag ''[document]'' Map.empty
       [card ''Aspire'' ''A'' ''$1'',
        Tag ''div'' [''class'' \<mapsto> ''card-body'']
          [Tag ''a'' [''class'' \<mapsto> ''title'', ''title'' \<mapsto> ''Bare''] [],
           Tag ''p'' [''class'' \<mapsto> ''description card-text''] [NavigableString ''no price'']],
        card ''Yoga'' ''C'' ''$3'']"

definition empty_page :: node where
  "empty_page = Tag ''[document]'' Map.empty [Tag ''p'' Map.empty [NavigableString ''nothing'']]"

definition page_link :: "string \<Rightarrow> node" where
  "page_link href =
     Tag ''li'' [''class'' \<mapsto> ''page-item'']
       [Tag ''a'' [''class'' \<mapsto> ''page-link'', ''href'' \<mapsto> href] [NavigableString ''.'']]"

definition pagination_of :: "string list \<Rightarrow> node" where
  "pagination_of hrefs = Tag ''ul'' [''class'' \<mapsto> ''pagination''] (map page_link hrefs)"

definition listing_page :: "string list \<Rightarrow> node" where
  "listing_page hrefs =
     Tag ''[document]'' Map.empty [card ''Aspire'' ''A'' ''$1'', pagination_of hrefs]"

definition laptop :: computer where
  "laptop = [(''Name'', ''ThinkPad X1''), (''Description'', ''Fast laptop''), (''Price'', ''$999'')]"

definition tablet :: computer where
  "tablet = [(''Name'', ''Tab, 7''), (''Description'', ''Small''), (''Price'', ''$99'')]"

definition cafe :: computer where
  \<comment> \<open>a record with characters beyond ASCII: e acute (0xE9) and the pound sign (0xA3)\<close>
  "cafe = [(''Name'', [CHR ''C'', CHR ''a'', CHR ''f'', CHR 0xE9]),
           (''Description'', [CHR ''a'', dquote, CHR ''b'', LF]),
           (''Price'', [CHR 0xA3, CHR ''5''])]"

section \<open>Properties of parse_page\<close>

lemma getitem_error: "getitem n k = Inl e \<Longrightarrow> e = KeyError \<or> e = TypeError"
  by (cases n) (auto split: option.splits)

lemma parse_block_error:
  "parse_block b = Inl e \<Longrightarrow> e \<in> {TypeError, KeyError, AttributeError}"
  by (auto simp: parse_block_def split: option.splits sum.splits dest: getitem_error)

lemma parse_block_incomplete: "block_incomplete b \<Longrightarrow> \<exists>e. parse_block b = Inl e"
  by (auto simp: block_incomplete_def parse_block_def split: option.splits sum.splits)

lemma parse_blocks_incomplete:
  "b \<in> set bs \<Longrightarrow> block_incomplete b \<Longrightarrow>
   parse_blocks bs acc \<in> {Inl TypeError, Inl KeyError, Inl AttributeError}"
proof (induction bs arbitrary: acc)
  case Nil
  then show ?case by simp
next
  case (Cons x bs)
  show ?case
  proof (cases "parse_block x")
    case (Inl e)
    then show ?thesis using parse_block_error [OF Inl] by auto
  next
    case (Inr r)
    with Cons.prems parse_block_incomplete [of x] have "b \<in> set bs" by auto
    from Cons.IH [OF this Cons.prems(2)] show ?thesis by (simp add: Inr)
  qed
qed

lemma get_text_descendants:
  "get_text el = string_of el @ concat (map string_of (descendants el))"
proof (induction el)
  case (Tag n a cs)
  have "concat (map get_text cs) = concat (map string_of (concat (map (\<lambda>c. c # descendants c) cs)))"
    using Tag.IH by (induction cs) simp_all
  then show ?case by simp
qed simp_all

lemma matches_Tag: "matches name cls el \<Longrightarrow> string_of el = []"
  by (cases el) simp_all

lemma find_tag_Tag: "find_tag name cls root = Some el \<Longrightarrow> string_of el = []"
proof -
  assume "find_tag name cls root = Some el"
  then have "el \<in> set (find_all name cls root)"
    by (auto simp: find_tag_def split: list.splits)
  then have "matches name cls el" by (simp add: find_all_def)
  then show ?thesis by (rule matches_Tag)
qed

lemma find_tag_text: "find_tag name cls root = Some el \<Longrightarrow> get_text el = element_text el"
  using get_text_descendants [of el] by (simp add: find_tag_Tag element_text_def)

lemma last_dropWhile: "dropWhile P xs \<noteq> [] \<Longrightarrow> last (dropWhile P xs) = last xs"
proof -
  assume ne: "dropWhile P xs \<noteq> []"
  have "last xs = last (takeWhile P xs @ dropWhile P xs)" by simp
  also have "\<dots> = last (dropWhile P xs)" using ne by (rule last_appendR)
  finally show ?thesis by simp
qed

lemma trimmed_strip: "trimmed s (strip s)"
proof -
  define u where "u = dropWhile isspace s"
  define v where "v = dropWhile isspace (rev u)"
  have strip: "strip s = rev v" by (simp add: strip_def u_def v_def)
  have "rev u = takeWhile isspace (rev u) @ v" by (simp add: v_def)
  then have "rev (rev u) = rev (takeWhile isspace (rev u) @ v)" by (rule arg_cong)
  then have u: "u = rev v @ rev (takeWhile isspace (rev u))" by simp
  have s: "s = takeWhile isspace s @ rev v @ rev (takeWhile isspace (rev u))"
    using u takeWhile_dropWhile_id [of isspace s] by (simp add: u_def)
  have pre: "list_all isspace (takeWhile isspace s)"
    by (auto simp: list_all_iff dest: set_takeWhileD)
  have post: "list_all isspace (rev (takeWhile isspace (rev u)))"
    by (auto simp: list_all_iff dest: set_takeWhileD)
  have ends: "\<not> isspace (hd (rev v)) \<and> \<not> isspace (last (rev v))" if ne: "v \<noteq> []"
  proof -
    from ne have a: "\<not> isspace (hd v)" unfolding v_def by (rule hd_dropWhile)
    from ne have "last v = last (rev u)" unfolding v_def by (rule last_dropWhile)
    moreover from ne have une: "u \<noteq> []" by (auto simp: v_def)
    ultimately have "last v = hd u" by (simp add: last_rev)
    moreover from une have "\<not> isspace (hd u)" unfolding u_def by (rule hd_dropWhile)
    ultimately have "\<not> isspace (last v)" by simp
    with a ne show ?thesis by (simp add: hd_rev last_rev)
  qed
  have cut: "\<exists>pre post. s = pre @ rev v @ post \<and> list_all isspace pre \<and> list_all isspace post"
    using s pre post by blast
  show ?thesis
    unfolding trimmed_def strip using cut ends by auto
qed

lemma parse_block_complete:
  assumes "block_complete b"
  shows "\<exists>r. parse_block b = Inr r \<and> block_record b r"
proof -
  from assms obtain a t p h where a: "find_tag ''a'' ''title'' b = Some a"
    and t: "getitem a ''title'' = Inr t"
    and p: "find_tag ''p'' ''description card-text'' b = Some p"
    and h: "find_tag ''h4'' ''price'' b = Some h"
    by (auto simp: block_complete_def)
  have "parse_block b = Inr [(''Name'', t), (''Description'', strip (get_text p)),
                             (''Price'', strip (get_text h))]"
    by (simp add: parse_block_def a t p h)
  moreover have "trimmed (element_text p) (strip (get_text p))"
    using trimmed_strip [of "get_text p"] by (simp add: find_tag_text [OF p])
  moreover have "trimmed (element_text h) (strip (get_text h))"
    using trimmed_strip [of "get_text h"] by (simp add: find_tag_text [OF h])
  ultimately show ?thesis
    using a t p h unfolding block_record_def by blast
qed

lemma parse_blocks_complete:
  "\<forall>b \<in> set bs. block_complete b \<Longrightarrow>
   \<exists>rs. parse_blocks bs acc = Inr (acc @ rs) \<and> list_all2 block_record bs rs"
proof (induction bs arbitrary: acc)
  case Nil
  then show ?case by simp
next
  case (Cons b bs)
  from Cons.prems parse_block_complete [of b] obtain r
    where r: "parse_block b = Inr r" "block_record b r" by auto
  from Cons.prems have "\<forall>b \<in> set bs. block_complete b" by simp
  from Cons.IH [OF this, of "acc @ [r]"] obtain rs
    where rs: "parse_blocks bs (acc @ [r]) = Inr ((acc @ [r]) @ rs)" "list_all2 block_record bs rs"
    by blast
  have "parse_blocks (b # bs) acc = Inr (acc @ r # rs) \<and> list_all2 block_record (b # bs) (r # rs)"
    using r rs by simp
  then show ?case by blast
qed

lemmas page_defs =
  card_def find_all_def find_tag_def class_matches_def strip_def isspace_def LF_def

text \<open>
  C3: when every card-body block of the page has its titled anchor, its description
  paragraph and its price heading, \<open>parse_page\<close> returns one record per block, in the order
  of the blocks. Each record holds the anchor's title, and the text content of the
  paragraph and of the heading (their text nodes in document order) without its leading
  and trailing whitespace, under the keys \<open>Name\<close>, \<open>Description\<close>, \<open>Price\<close>. A page with no
  card-body block gives the empty list, with no error.
\<close>

theorem parse_page_records:
  assumes "\<forall>block \<in> set (find_all ''div'' ''card-body'' soup). block_complete block"
  shows "\<exists>rs. parse_page soup = Inr rs
           \<and> list_all2 block_record (find_all ''div'' ''card-body'' soup) rs
           \<and> length rs = length (find_all ''div'' ''card-body'' soup)
           \<and> (find_all ''div'' ''card-body'' soup = [] \<longrightarrow> rs = [])"
proof -
  from parse_blocks_complete [OF assms, of "[]"] obtain rs
    where "parse_page soup = Inr rs"
      and "list_all2 block_record (find_all ''div'' ''card-body'' soup) rs"
    by (auto simp: parse_page_def)
  then show ?thesis by (auto dest: list_all2_lengthD)
qed

theorem parse_page_records_witness:
  "parse_page two_cards_page
     = Inr [[(''Name'', ''Aspire''), (''Description'', ''A''), (''Price'', ''$1'')],
            [(''Name'', ''Yoga''), (''Description'', ''Thin and light''), (''Price'', ''$7'')]]
   \<and> list_all2 block_record (find_all ''div'' ''card-body'' two_cards_page)
        [[(''Name'', ''Aspire''), (''Description'', ''A''), (''Price'', ''$1'')],
         [(''Name'', ''Yoga''), (''Description'', ''Thin and light''), (''Price'', ''$7'')]]
   \<and> parse_page empty_page = Inr []"
proof -
  have two: "\<forall>block \<in> set (find_all ''div'' ''card-body'' two_cards_page). block_complete block"
    by (simp add: two_cards_page_def rich_card_def block_complete_def page_defs)
  have none: "\<forall>block \<in> set (find_all ''div'' ''card-body'' empty_page). block_complete block"
    by (simp add: empty_page_def page_defs)
  have val: "parse_page two_cards_page
     = Inr [[(''Name'', ''Aspire''), (''Description'', ''A''), (''Price'', ''$1'')],
            [(''Name'', ''Yoga''), (''Description'', ''Thin and light''), (''Price'', ''$7'')]]"
    by (simp add: two_cards_page_def rich_card_def parse_page_def parse_block_def page_defs)
  have emp: "find_all ''div'' ''card-body'' empty_page = []"
    by (simp add: empty_page_def page_defs)
  from parse_page_records [OF two] val parse_page_records [OF none] emp
  show ?thesis by auto
qed

text \<open>
  C4: when some card-body block of the page lacks one of its three sub-elements,
  \<open>parse_page\<close> raises a lookup error for the whole page: it returns no record at all, neither
  a partial one for that block nor those of the other blocks.
\<close>

theorem parse_page_incomplete:
  assumes "block \<in> set (find_all ''div'' ''card-body'' soup)" and "block_incomplete block"
  shows "parse_page soup \<in> {Inl TypeError, Inl KeyError, Inl AttributeError}"
  unfolding parse_page_def by (rule parse_blocks_incomplete [OF assms])

theorem parse_page_incomplete_witness:
  "(\<exists>block \<in> set (find_all ''div'' ''card-body'' no_price_page). block_incomplete block)
   \<and> parse_page no_price_page = Inl AttributeError"
proof -
  define bare where "bare = Tag ''div'' [''class'' \<mapsto> ''card-body'']
          [Tag ''a'' [''class'' \<mapsto> ''title'', ''title'' \<mapsto> ''Bare''] [],
           Tag ''p'' [''class'' \<mapsto> ''description card-text''] [NavigableString ''no price'']]"
  have mem: "bare \<in> set (find_all ''div'' ''card-body'' no_price_page)"
    by (simp add: no_price_page_def bare_def page_defs)
  have inc: "block_incomplete bare"
    by (simp add: block_incomplete_def bare_def page_defs)
  have "parse_page no_price_page = Inl AttributeError"
    by (simp add: no_price_page_def parse_page_def parse_block_def page_defs)
  with mem inc parse_page_incomplete [OF mem inc] show ?thesis by blast
qed

text \<open>
  C5, as the code has it: a page with one card-body block whose anchor has the title
  ThinkPad X1, whose description paragraph has the text " Fast laptop " and whose price
  heading has the text " $999 " gives the single record with the keys \<open>Name\<close>,
  \<open>Description\<close>, \<open>Price\<close> (capitalised, in this order) and the values ThinkPad X1,
  Fast laptop, $999.
\<close>

theorem parse_page_thinkpad:
  assumes "find_all ''div'' ''card-body'' soup = [block]"
    and "find_tag ''a'' ''title'' block = Some a" and "getitem a ''title'' = Inr ''ThinkPad X1''"
    and "find_tag ''p'' ''description card-text'' block = Some p"
    and "get_text p = '' Fast laptop ''"
    and "find_tag ''h4'' ''price'' block = Some h" and "get_text h = '' $999 ''"
  shows "parse_page soup
     = Inr [[(''Name'', ''ThinkPad X1''), (''Description'', ''Fast laptop''), (''Price'', ''$999'')]]"
  by (simp add: parse_page_def parse_block_def assms strip_def isspace_def)

theorem parse_page_thinkpad_witness:
  "parse_page thinkpad_page
     = Inr [[(''Name'', ''ThinkPad X1''), (''Description'', ''Fast laptop''), (''Price'', ''$999'')]]"
  by (rule parse_page_thinkpad
        [of _ "card ''ThinkPad X1'' '' Fast laptop '' '' $999 ''"
            "Tag ''a'' [''href'' \<mapsto> ''/product/1'', ''class'' \<mapsto> ''title'', ''title'' \<mapsto> ''ThinkPad X1'']
               [NavigableString ''...'']"
            "Tag ''p'' [''class'' \<mapsto> ''description card-text''] [NavigableString '' Fast laptop '']"
            "Tag ''h4'' [''class'' \<mapsto> ''price float-end card-title pull-right'']
               [NavigableString '' $999 '']"])
     (simp_all add: thinkpad_page_def page_defs)

text \<open>
  C5 as the claim words it fails: the record of that page does not have the keys \<open>name\<close>,
  \<open>description\<close>, \<open>price\<close>.
\<close>

theorem parse_page_thinkpad_counterexample:
  "parse_page thinkpad_page
     \<noteq> Inr [[(''name'', ''ThinkPad X1''), (''description'', ''Fast laptop''), (''price'', ''$999'')]]"
  by (simp add: thinkpad_page_def parse_page_def parse_block_def page_defs)

section \<open>Properties of get_pagination_links\<close>


lemma collect_links_no_origin:
  "links \<noteq> [] \<Longrightarrow>
   collect_links None links acc \<in> {Inl AttributeError, Inl KeyError, Inl TypeError}"
  by (cases links) (auto split: sum.splits dest: getitem_error)



lemmas listing_defs =
  listing_page_def pagination_of_def page_link_def card_def find_all_def find_tag_def
  class_matches_def isspace_def

lemmas origin_defs = re_match_group1_def host_char_def isword_def



text \<open>
  C2: when the page has no pagination container, \<open>get_pagination_links\<close> returns the empty
  list, not the list of the source URL alone, whatever the source URL is.
\<close>

theorem get_pagination_links_none:
  assumes "find_tag ''ul'' ''pagination'' soup = None"
  shows "get_pagination_links soup url = Inr [] \<and> get_pagination_links soup url \<noteq> Inr [url]"
  by (simp add: get_pagination_links_def assms)

theorem get_pagination_links_none_witness:
  "find_tag ''ul'' ''pagination'' thinkpad_page = None
   \<and> get_pagination_links thinkpad_page ''https://example.com/l'' = Inr []"
proof -
  have none: "find_tag ''ul'' ''pagination'' thinkpad_page = None"
    by (simp add: thinkpad_page_def listing_defs)
  from get_pagination_links_none [OF none, of "''https://example.com/l''"] none
  show ?thesis by simp
qed

text \<open>
  C10: when the source URL does not match the pattern, \<open>get_pagination_links\<close> still returns
  the empty list for a page with no pagination container, and the list of the source URL
  alone for a page whose container has no anchor of class \<open>page-link\<close>; it raises only when
  the container has at least one such anchor.
\<close>

theorem get_pagination_links_no_match:
  assumes "re_match_group1 url = None"
  shows "(find_tag ''ul'' ''pagination'' soup = None \<longrightarrow> get_pagination_links soup url = Inr [])
       \<and> (\<forall>pagination. find_tag ''ul'' ''pagination'' soup = Some pagination
             \<and> find_all ''a'' ''page-link'' pagination = []
           \<longrightarrow> get_pagination_links soup url = Inr [url])
       \<and> (\<forall>pagination. find_tag ''ul'' ''pagination'' soup = Some pagination
             \<and> find_all ''a'' ''page-link'' pagination \<noteq> []
           \<longrightarrow> (\<exists>e. get_pagination_links soup url = Inl e))"
  using collect_links_no_origin [of _ "[url]"]
  by (auto simp: get_pagination_links_def assms)

theorem get_pagination_links_no_match_witness:
  "re_match_group1 ''https://example.com'' = None
   \<and> get_pagination_links thinkpad_page ''https://example.com'' = Inr []
   \<and> get_pagination_links (listing_page []) ''https://example.com'' = Inr [''https://example.com'']
   \<and> (\<exists>e. get_pagination_links (listing_page [''/l?page=2'']) ''https://example.com'' = Inl e)"
proof -
  have no: "re_match_group1 ''https://example.com'' = None"
    by (simp add: origin_defs)
  have a: "find_tag ''ul'' ''pagination'' thinkpad_page = None"
    by (simp add: thinkpad_page_def listing_defs)
  have b: "find_tag ''ul'' ''pagination'' (listing_page []) = Some (pagination_of [])
           \<and> find_all ''a'' ''page-link'' (pagination_of []) = []"
    by (simp add: listing_defs)
  have c: "find_tag ''ul'' ''pagination'' (listing_page [''/l?page=2''])
             = Some (pagination_of [''/l?page=2''])
           \<and> find_all ''a'' ''page-link'' (pagination_of [''/l?page=2'']) \<noteq> []"
    by (simp add: listing_defs)
  from get_pagination_links_no_match [OF no, of thinkpad_page] a
  have "get_pagination_links thinkpad_page ''https://example.com'' = Inr []" by simp
  moreover from get_pagination_links_no_match [OF no, of "listing_page []"] b
  have "get_pagination_links (listing_page []) ''https://example.com'' = Inr [''https://example.com'']"
    by blast
  moreover from get_pagination_links_no_match [OF no, of "listing_page [''/l?page=2'']"] c
  have "\<exists>e. get_pagination_links (listing_page [''/l?page=2'']) ''https://example.com'' = Inl e"
    by blast
  ultimately show ?thesis using no by simp
qed

section \<open>Properties of save_to_csv\<close>

lemma write_rows_all:
  "\<forall>r \<in> set rows. set (map fst r) \<subseteq> set fieldnames \<Longrightarrow>
   write_rows fieldnames rows out =
     (Inr (), out @ concat (map (\<lambda>r. csv_row (map (\<lambda>key. dict_get r key []) fieldnames)) rows))"
proof (induction rows arbitrary: out)
  case Nil
  then show ?case by simp
next
  case (Cons r rows)
  from Cons.prems
  have "dict_to_list fieldnames r = Inr (map (\<lambda>key. dict_get r key []) fieldnames)"
    by (auto simp: dict_to_list_def)
  with Cons show ?case by simp
qed

lemma write_batches_all:
  "\<forall>r \<in> set (concat data). set (map fst r) \<subseteq> set fieldnames \<Longrightarrow>
   write_batches fieldnames data out =
     (Inr (), out @ concat (map (\<lambda>r. csv_row (map (\<lambda>key. dict_get r key []) fieldnames))
                                (concat data)))"
proof (induction data arbitrary: out)
  case Nil
  then show ?case by simp
next
  case (Cons rows data)
  from Cons.prems have rows: "\<forall>r \<in> set rows. set (map fst r) \<subseteq> set fieldnames"
    and rest: "\<forall>r \<in> set (concat data). set (map fst r) \<subseteq> set fieldnames"
    by auto
  show ?case by (simp add: write_rows_all [OF rows] Cons.IH [OF rest])
qed

lemma write_rows_extends: "\<exists>rest. snd (write_rows fieldnames rows out) = out @ rest"
proof (induction rows arbitrary: out)
  case Nil
  then show ?case by simp
next
  case (Cons r rows)
  show ?case
  proof (cases "dict_to_list fieldnames r")
    case (Inl e)
    then show ?thesis by simp
  next
    case (Inr cells)
    from Cons.IH [of "out @ csv_row cells"] show ?thesis by (auto simp: Inr)
  qed
qed

lemma write_batches_extends: "\<exists>rest. snd (write_batches fieldnames data out) = out @ rest"
proof (induction data arbitrary: out)
  case Nil
  then show ?case by simp
next
  case (Cons rows data)
  obtain res out' where w: "write_rows fieldnames rows out = (res, out')"
    by (cases "write_rows fieldnames rows out")
  from write_rows_extends [of fieldnames rows out] w obtain r1 where r1: "out' = out @ r1"
    by auto
  show ?case
  proof (cases res)
    case (Inl e)
    then show ?thesis using w r1 by simp
  next
    case (Inr u)
    from Cons.IH [of out'] show ?thesis using w r1 Inr by auto
  qed
qed

lemma write_batches_no_fields:
  "concat data = r # rs \<Longrightarrow> r \<noteq> [] \<Longrightarrow> write_batches [] data out = (Inl ValueError, out)"
proof (induction data arbitrary: out)
  case Nil
  then show ?case by simp
next
  case (Cons rows data)
  show ?case
  proof (cases rows)
    case Nil
    with Cons show ?thesis by simp
  next
    case (Cons x xs)
    with Cons.prems have "x = r" by simp
    with Cons.prems(2) have "dict_to_list [] x = Inl ValueError"
      by (cases x) (auto simp: dict_to_list_def)
    then show ?thesis by (simp add: Cons)
  qed
qed

lemmas csv_defs = csv_row_def csv_field_def dict_get_def dquote_def CR_def LF_def

text \<open>
  C6, as the code has it: for a sequence of batches whose first batch has a first record,
  and whose records have no key outside the keys of that record, \<open>save_to_csv\<close> returns and
  leaves in the file the header row of that record's keys, in their order, followed by one
  row per record of all batches, in batch order and then in the order within the batch; the
  number of these rows is the sum of the sizes of the batches. When the first batch is
  empty the field names are those of the first batch all the same, that is none, and the
  file starts with the empty header row.
\<close>

theorem save_to_csv_rows:
  assumes "data = first # batches"
  shows "(\<forall>row rows. first = row # rows
            \<and> (\<forall>r \<in> set (concat data). set (map fst r) \<subseteq> set (map fst row))
          \<longrightarrow> (\<exists>lines. save_to_csv data filename fs
                         = (Inr (), fs(filename \<mapsto> csv_row (map fst row) @ concat lines))
                \<and> lines = map (\<lambda>r. csv_row (map (\<lambda>key. dict_get r key []) (map fst row)))
                               (concat data)
                \<and> length lines = sum_list (map length data)))
       \<and> (first = []
          \<longrightarrow> (\<exists>res rest. save_to_csv data filename fs
                             = (res, fs(filename \<mapsto> csv_row [] @ rest))))"
proof (intro conjI allI impI)
  fix row rows
  assume a: "first = row # rows
     \<and> (\<forall>r \<in> set (concat data). set (map fst r) \<subseteq> set (map fst row))"
  then have keys: "\<forall>r \<in> set (concat data). set (map fst r) \<subseteq> set (map fst row)" by simp
  have "save_to_csv data filename fs
      = (Inr (), fs(filename \<mapsto> csv_row (map fst row)
           @ concat (map (\<lambda>r. csv_row (map (\<lambda>key. dict_get r key []) (map fst row)))
                         (concat data))))"
  proof -
    have "write_batches (map fst row) data (csv_row (map fst row))
        = (Inr (), csv_row (map fst row)
           @ concat (map (\<lambda>r. csv_row (map (\<lambda>key. dict_get r key []) (map fst row)))
                         (concat data)))"
      by (rule write_batches_all [OF keys])
    moreover have "(case first of [] \<Rightarrow> [] | r # _ \<Rightarrow> map fst r) = map fst row"
      using a by simp
    moreover have "save_to_csv data filename fs
        = (let fieldnames = (case first of [] \<Rightarrow> [] | r # _ \<Rightarrow> map fst r);
               (res, csvfile) = write_batches fieldnames data (csv_row fieldnames)
           in (res, fs(filename \<mapsto> csvfile)))"
      unfolding save_to_csv_def by (subst assms) simp
    ultimately show ?thesis by simp
  qed
  moreover have "length (concat data) = sum_list (map length data)"
    by (simp add: length_concat)
  ultimately show "\<exists>lines. save_to_csv data filename fs
                         = (Inr (), fs(filename \<mapsto> csv_row (map fst row) @ concat lines))
                \<and> lines = map (\<lambda>r. csv_row (map (\<lambda>key. dict_get r key []) (map fst row)))
                               (concat data)
                \<and> length lines = sum_list (map length data)"
    by simp
next
  assume e: "first = []"
  obtain res out where w: "write_batches [] data (csv_row []) = (res, out)"
    by (cases "write_batches [] data (csv_row [])")
  with write_batches_extends [of "[]" data "csv_row []"] obtain rest
    where "out = csv_row [] @ rest" by auto
  with w e have "save_to_csv data filename fs = (res, fs(filename \<mapsto> csv_row [] @ rest))"
    by (simp add: save_to_csv_def assms)
  then show "\<exists>res rest. save_to_csv data filename fs
                             = (res, fs(filename \<mapsto> csv_row [] @ rest))"
    by blast
qed

theorem save_to_csv_rows_witness:
  "save_to_csv [[laptop], [], [tablet, laptop]] ''computers_data.csv'' Map.empty
     = (Inr (), [''computers_data.csv'' \<mapsto>
          concat [''Name,Description,Price'' @ [CR, LF],
                  ''ThinkPad X1,Fast laptop,$999'' @ [CR, LF],
                  [dquote] @ ''Tab, 7'' @ [dquote] @ '',Small,$99'' @ [CR, LF],
                  ''ThinkPad X1,Fast laptop,$999'' @ [CR, LF]]])
   \<and> (\<exists>res rest. save_to_csv [[], [laptop]] ''computers_data.csv'' Map.empty
          = (res, [''computers_data.csv'' \<mapsto> [CR, LF] @ rest]))"
  using save_to_csv_rows [of "[[laptop], [], [tablet, laptop]]" "[laptop]" "[[], [tablet, laptop]]"
      "''computers_data.csv''" Map.empty]
    save_to_csv_rows [of "[[], [laptop]]" "[]" "[[laptop]]" "''computers_data.csv''" Map.empty]
  by (simp add: laptop_def tablet_def csv_defs)

text \<open>
  C6 as the claim words it fails: with an empty first batch and a record in a later one,
  \<open>save_to_csv\<close> raises, and the file holds the empty header row and no row for the record.
\<close>

theorem save_to_csv_rows_counterexample:
  "save_to_csv [[], [laptop]] ''computers_data.csv'' Map.empty
     = (Inl ValueError, [''computers_data.csv'' \<mapsto> [CR, LF]])"
  by (simp add: save_to_csv_def laptop_def dict_to_list_def csv_row_def)

text \<open>
  C9, as the code has it: when the first batch is empty and a later batch has a record, the
  first of these records having at least one key, \<open>save_to_csv\<close> takes no field names,
  writes the empty header row and raises \<open>ValueError\<close> at that record: the file holds the
  header row alone, with no row for any record.
\<close>

theorem save_to_csv_empty_first:
  assumes "data = [] # batches" and "concat batches = r # rs" and "r \<noteq> []"
  shows "save_to_csv data filename fs = (Inl ValueError, fs(filename \<mapsto> csv_row []))"
proof -
  from assms(1,2) have "concat data = r # rs" by simp
  from write_batches_no_fields [OF this assms(3)] show ?thesis
    by (simp add: save_to_csv_def assms(1))
qed

theorem save_to_csv_empty_first_witness:
  "save_to_csv [[], [], [tablet, laptop]] ''computers_data.csv'' Map.empty
     = (Inl ValueError, [''computers_data.csv'' \<mapsto> [CR, LF]])"
  using save_to_csv_empty_first [of "[[], [], [tablet, laptop]]" "[[], [tablet, laptop]]"
      tablet "[laptop]" "''computers_data.csv''" Map.empty]
  by (simp add: tablet_def csv_row_def)

text \<open>
  C9 as the claim words it fails: a record with no key has no key for the writer to reject.
  With an empty first batch and such a record in a later one, \<open>save_to_csv\<close> returns, and
  the file holds the empty header row and an empty row for the record.
\<close>

theorem save_to_csv_empty_first_counterexample:
  "save_to_csv [[], [[]]] ''computers_data.csv'' Map.empty
     = (Inr (), [''computers_data.csv'' \<mapsto> [CR, LF, CR, LF]])"
  by (simp add: save_to_csv_def dict_to_list_def csv_row_def)

section \<open>The empty input\<close>

text \<open>
  C7: for the empty sequence of batches, \<open>save_to_csv\<close> and \<open>save_to_json\<close> both return
  without an error and leave the files as they were: no file is opened or created.
\<close>

theorem save_nothing:
  "save_to_csv [] csv_filename fs = (Inr (), fs) \<and> save_to_json [] json_filename fs = (Inr (), fs)"
  by (simp add: save_to_csv_def save_to_json_def)

theorem save_nothing_witness:
  "save_to_csv [] ''computers_data.csv'' Map.empty = (Inr (), Map.empty)
   \<and> save_to_json [] ''computers_data.json'' Map.empty = (Inr (), Map.empty)"
  by (rule save_nothing)

section \<open>Properties of save_to_json\<close>

declare parse_pairs.simps [simp del] parse_items.simps [simp del]

lemma prepend_Some: "prepend x (Some (xs, r)) = Some (x # xs, r)"
  by (simp add: prepend_def)

lemma hex_value_digit: "k < 16 \<Longrightarrow> hex_value (hex_digit k) = Some k"
proof -
  assume "k < 16"
  then have "k = 0 \<or> k = 1 \<or> k = 2 \<or> k = 3 \<or> k = 4 \<or> k = 5 \<or> k = 6 \<or> k = 7
    \<or> k = 8 \<or> k = 9 \<or> k = 10 \<or> k = 11 \<or> k = 12 \<or> k = 13 \<or> k = 14 \<or> k = 15"
    by arith
  then show ?thesis
    by (elim disjE) (simp_all add: hex_digit_def hex_value_def)
qed

lemma scanstring_control:
  assumes "(of_char c :: nat) < 32"
  shows "scanstring ([backslash, CHR ''u'', CHR ''0'', CHR ''0'',
                      hex_digit (of_char c div 16), hex_digit (of_char c mod 16)] @ t)
         = prepend c (scanstring t)"
proof -
  have hi: "hex_value (hex_digit (of_char c div 16)) = Some (of_char c div 16)"
    using assms by (intro hex_value_digit) simp
  have lo: "hex_value (hex_digit (of_char c mod 16)) = Some (of_char c mod 16)"
    by (intro hex_value_digit) simp
  have zero: "hex_value CHR ''0'' = Some 0"
    by (simp add: hex_value_def)
  have n: "((0 * 16 + 0) * 16 + of_char c div 16) * 16 + of_char c mod 16 = (of_char c :: nat)"
    by simp
  have lt: "(of_char c :: nat) < 256"
    using assms by simp
  show ?thesis
    using lt by (simp add: hi lo zero n dquote_def backslash_def)
qed

lemma scanstring_escape: "scanstring (json_escape c @ t) = prepend c (scanstring t)"
proof -
  consider (special) "c = dquote \<or> c = backslash \<or> c = LF \<or> c = CR
        \<or> c = CHR 0x09 \<or> c = CHR 0x08 \<or> c = CHR 0x0C"
    | (control) "c \<noteq> dquote" "c \<noteq> backslash" "c \<noteq> LF" "c \<noteq> CR" "c \<noteq> CHR 0x09"
        "c \<noteq> CHR 0x08" "c \<noteq> CHR 0x0C" "(of_char c :: nat) < 32"
    | (literal) "c \<noteq> dquote" "c \<noteq> backslash" "\<not> (of_char c :: nat) < 32"
    by blast
  then show ?thesis
  proof cases
    case special
    then show ?thesis
      by (elim disjE)
         (simp_all add: json_escape_def unescape_def dquote_def backslash_def LF_def CR_def)
  next
    case control
    then have "json_escape c = [backslash, CHR ''u'', CHR ''0'', CHR ''0'',
                      hex_digit (of_char c div 16), hex_digit (of_char c mod 16)]"
      by (simp add: json_escape_def)
    with scanstring_control [OF control(8)] show ?thesis by simp
  next
    case literal
    then have "json_escape c = [c]"
      by (auto simp: json_escape_def LF_def CR_def)
    with literal show ?thesis by simp
  qed
qed

lemma scanstring_encoded:
  "scanstring (concat (map json_escape s) @ dquote # rest) = Some (s, rest)"
  by (induction s) (simp_all add: scanstring_escape prepend_Some)

lemma skip_ws_indent: "skip_ws (newline_indent k @ t) = skip_ws t"
  unfolding skip_ws_def
  by (rule dropWhile_append2) (auto simp: newline_indent_def json_ws_def)

lemma skip_ws_other: "\<not> json_ws c \<Longrightarrow> skip_ws (c # t) = c # t"
  by (simp add: skip_ws_def)

lemma json_ws_simps:
  "\<not> json_ws CHR '':''" "\<not> json_ws dquote" "\<not> json_ws CHR ''}''" "\<not> json_ws CHR '',''"
  "\<not> json_ws CHR ''{''" "\<not> json_ws CHR '']''" "\<not> json_ws CHR ''[''" "json_ws CHR '' ''"
  by (simp_all add: json_ws_def dquote_def LF_def CR_def)

lemma join_Cons: "join sep (x # xs) = x @ join_more sep xs"
  by (cases xs) (simp_all add: join_more_def)

lemma join_more_Nil: "join_more sep [] = []"
  by (simp add: join_more_def)

lemma join_more_Cons: "join_more sep (x # xs) = sep @ x @ join_more sep xs"
  by (simp add: join_more_def join_Cons del: join.simps)

lemma item_rest_text:
  "item_rest (k, v)
     = concat (map json_escape k)
       @ dquote # CHR '':'' # CHR '' '' # dquote # concat (map json_escape v) @ [dquote]"
  by (simp add: item_rest_def encode_item_def encode_basestring_def)

lemma encode_item_rest: "encode_item kv = dquote # item_rest kv"
  by (simp add: item_rest_def encode_item_def encode_basestring_def)

lemma encode_dict_rest: "encode_dict d = CHR ''{'' # dict_rest d"
  by (simp add: dict_rest_def encode_dict_def)

lemma parse_pairs_item:
  "parse_pairs (item_rest (k, v) @ t)
     = (case skip_ws t of
          [] \<Rightarrow> None
        | d # r4 \<Rightarrow>
            if d = CHR ''}'' then Some ([(k, v)], r4)
            else if d \<noteq> CHR '','' then None
            else (case skip_ws r4 of
                    [] \<Rightarrow> None
                  | q' # r5 \<Rightarrow> if q' \<noteq> dquote then None
                              else prepend (k, v) (parse_pairs r5)))"
proof -
  have doc: "item_rest (k, v) @ t
     = concat (map json_escape k)
       @ dquote # (CHR '':'' # CHR '' '' # dquote # concat (map json_escape v) @ dquote # t)"
    by (simp add: item_rest_text)
  have colon: "skip_ws (CHR '':'' # CHR '' '' # dquote # concat (map json_escape v) @ dquote # t)
     = CHR '':'' # CHR '' '' # dquote # concat (map json_escape v) @ dquote # t"
    by (simp add: skip_ws_other json_ws_simps)
  have quote: "skip_ws (CHR '' '' # dquote # concat (map json_escape v) @ dquote # t)
     = dquote # concat (map json_escape v) @ dquote # t"
    by (simp add: skip_ws_def json_ws_simps)
  show ?thesis
    by (subst parse_pairs.simps)
       (simp only: doc scanstring_encoded colon quote option.case prod.case list.case
          simp_thms if_False if_True)
qed

lemma parse_pairs_encoded:
  "parse_pairs (item_rest p @ join_more (CHR '','' # newline_indent i) (map encode_item ps)
                @ newline_indent j @ CHR ''}'' # rest)
     = Some (p # ps, rest)"
proof (induction ps arbitrary: p)
  case Nil
  obtain k v where p: "p = (k, v)" by (cases p)
  have "skip_ws (newline_indent j @ CHR ''}'' # rest) = CHR ''}'' # rest"
    by (simp add: skip_ws_indent skip_ws_other json_ws_simps)
  then show ?case
    by (simp add: p parse_pairs_item join_more_Nil)
next
  case (Cons q qs)
  obtain k v where p: "p = (k, v)" by (cases p)
  let ?more = "join_more (CHR '','' # newline_indent i) (map encode_item qs)
               @ newline_indent j @ CHR ''}'' # rest"
  have doc: "item_rest p @ join_more (CHR '','' # newline_indent i) (map encode_item (q # qs))
               @ newline_indent j @ CHR ''}'' # rest
      = item_rest (k, v) @ (CHR '','' # newline_indent i @ dquote # item_rest q @ ?more)"
    by (simp add: p join_more_Cons encode_item_rest)
  have comma: "skip_ws (CHR '','' # newline_indent i @ dquote # item_rest q @ ?more)
      = CHR '','' # newline_indent i @ dquote # item_rest q @ ?more"
    by (simp add: skip_ws_other json_ws_simps)
  have next_key: "skip_ws (newline_indent i @ dquote # item_rest q @ ?more)
      = dquote # item_rest q @ ?more"
    by (simp add: skip_ws_indent skip_ws_other json_ws_simps)
  show ?case
    unfolding doc parse_pairs_item comma
    by (simp add: next_key prepend_Some p Cons.IH)
qed

lemma update_fresh: "k \<notin> fst ` set al \<Longrightarrow> AList.update k v al = al @ [(k, v)]"
  by (induction al) auto

lemma foldl_update_distinct:
  "distinct (map fst (acc @ d)) \<Longrightarrow> foldl (\<lambda>d (k, v). AList.update k v d) acc d = acc @ d"
proof (induction d arbitrary: acc)
  case Nil
  then show ?case by simp
next
  case (Cons p d)
  obtain k v where p: "p = (k, v)" by (cases p)
  from Cons.prems have fresh: "k \<notin> fst ` set acc" by (auto simp: p)
  from Cons.prems have "distinct (map fst ((acc @ [(k, v)]) @ d))" by (auto simp: p)
  from Cons.IH [OF this] show ?case by (simp add: p update_fresh [OF fresh])
qed

lemma dict_of_pairs_distinct: "distinct (map fst d) \<Longrightarrow> dict_of_pairs d = d"
  using foldl_update_distinct [of "[]" d] by (simp add: dict_of_pairs_def)

lemma parse_object_encoded:
  assumes "distinct (map fst d)"
  shows "parse_object (dict_rest d @ rest) = Some (d, rest)"
proof (cases d)
  case Nil
  then show ?thesis
    by (simp add: dict_rest_def encode_dict_def parse_object_def skip_ws_other json_ws_simps)
next
  case (Cons p ps)
  let ?more = "join_more (CHR '','' # newline_indent 2) (map encode_item ps)
               @ newline_indent 1 @ CHR ''}'' # rest"
  have "dict_rest d @ rest = newline_indent 2 @ dquote # item_rest p @ ?more"
    by (simp add: dict_rest_def encode_dict_def Cons join_Cons encode_item_rest del: join.simps)
  then have "skip_ws (dict_rest d @ rest) = dquote # item_rest p @ ?more"
    by (simp add: skip_ws_indent skip_ws_other json_ws_simps)
  moreover have "parse_pairs (item_rest p @ ?more) = Some (p # ps, rest)"
    by (rule parse_pairs_encoded)
  ultimately show ?thesis
    using dict_of_pairs_distinct [OF assms]
    by (simp add: parse_object_def Cons dquote_def)
qed

lemma parse_items_encoded:
  "\<forall>x \<in> set (d # ds). distinct (map fst x) \<Longrightarrow>
   parse_items (CHR ''{'' # dict_rest d
                @ join_more (CHR '','' # newline_indent i) (map encode_dict ds)
                @ newline_indent j @ CHR '']'' # rest)
     = Some (d # ds, rest)"
proof (induction ds arbitrary: d)
  case Nil
  then have d: "distinct (map fst d)" by simp
  have "skip_ws (newline_indent j @ CHR '']'' # rest) = CHR '']'' # rest"
    by (simp add: skip_ws_indent skip_ws_other json_ws_simps)
  then show ?case
    by (subst parse_items.simps) (simp add: parse_object_encoded [OF d] join_more_Nil)
next
  case (Cons e es)
  then have d: "distinct (map fst d)" and rest: "\<forall>x \<in> set (e # es). distinct (map fst x)"
    by simp_all
  let ?more = "join_more (CHR '','' # newline_indent i) (map encode_dict es)
               @ newline_indent j @ CHR '']'' # rest"
  have doc: "CHR ''{'' # dict_rest d
        @ join_more (CHR '','' # newline_indent i) (map encode_dict (e # es))
        @ newline_indent j @ CHR '']'' # rest
      = CHR ''{'' # dict_rest d @ (CHR '','' # newline_indent i @ CHR ''{'' # dict_rest e @ ?more)"
    by (simp add: join_more_Cons encode_dict_rest)
  have comma: "skip_ws (CHR '','' # newline_indent i @ CHR ''{'' # dict_rest e @ ?more)
      = CHR '','' # newline_indent i @ CHR ''{'' # dict_rest e @ ?more"
    by (simp add: skip_ws_other json_ws_simps)
  have next_item: "skip_ws (newline_indent i @ CHR ''{'' # dict_rest e @ ?more)
      = CHR ''{'' # dict_rest e @ ?more"
    by (simp add: skip_ws_indent skip_ws_other json_ws_simps)
  show ?case
    unfolding doc
    by (subst parse_items.simps)
       (simp add: parse_object_encoded [OF d] comma next_item prepend_Some Cons.IH [OF rest])
qed

lemma json_loads_encoded:
  assumes "\<forall>x \<in> set lst. distinct (map fst x)"
  shows "json_loads (encode_list lst) = Some lst"
proof (cases lst)
  case Nil
  then show ?thesis
    by (simp add: encode_list_def json_loads_def skip_ws_def json_ws_def LF_def CR_def)
next
  case (Cons d ds)
  let ?items = "CHR ''{'' # dict_rest d
        @ join_more (CHR '','' # newline_indent 1) (map encode_dict ds)
        @ newline_indent 0 @ CHR '']'' # []"
  have doc: "encode_list lst = CHR ''['' # newline_indent 1 @ ?items"
    by (simp add: encode_list_def Cons join_Cons encode_dict_rest del: join.simps)
  have items: "parse_items ?items = Some (d # ds, [])"
    using assms by (intro parse_items_encoded) (simp add: Cons)
  have start: "skip_ws (CHR ''['' # newline_indent 1 @ ?items) = CHR ''['' # newline_indent 1 @ ?items"
    by (simp add: skip_ws_other json_ws_simps)
  have at_end: "skip_ws [] = []"
    by (simp add: skip_ws_def)
  show ?thesis
    unfolding json_loads_def doc start
    using items by (simp add: skip_ws_indent skip_ws_other json_ws_simps at_end Cons)
qed

lemma json_escape_literal:
  "c \<noteq> dquote \<Longrightarrow> c \<noteq> backslash \<Longrightarrow> 32 \<le> (of_char c :: nat) \<Longrightarrow> json_escape c = [c]"
  by (auto simp: json_escape_def LF_def CR_def)

lemma json_escape_non_ascii: "128 \<le> (of_char c :: nat) \<Longrightarrow> json_escape c = [c]"
  by (rule json_escape_literal) (auto simp: dquote_def backslash_def)

lemma encode_basestring_non_ascii:
  "\<forall>c \<in> set s. 128 \<le> (of_char c :: nat) \<Longrightarrow> encode_basestring s = [dquote] @ s @ [dquote]"
proof -
  assume "\<forall>c \<in> set s. 128 \<le> (of_char c :: nat)"
  then have "concat (map json_escape s) = s"
    by (induction s) (simp_all add: json_escape_non_ascii)
  then show ?thesis by (simp add: encode_basestring_def)
qed

lemma encode_list_laptop:
  \<open>encode_list [laptop] =
     ''[\<newline>    {\<newline>        "Name": "ThinkPad X1",\<newline>        "Description": "Fast laptop",\<newline>        "Price": "$999"\<newline>    }\<newline>]''\<close>
  by code_simp

text \<open>
  C8: for a non-empty sequence of batches (of dictionaries, that is with no key twice in a
  record), \<open>save_to_json\<close> returns and leaves in the file the JSON text of the concatenation
  of the batches: all records in batch order and then in the order within the batch, with
  no trace of the batches. Reading that text back with \<open>json.loads\<close> gives exactly that
  list of records, keys and values as they were. Characters beyond ASCII are written as
  they are: a string made of such characters is written between two quotes unchanged.
\<close>

theorem save_to_json_roundtrip:
  assumes "data \<noteq> []" and "\<forall>r \<in> set (concat data). distinct (map fst r)"
  shows "save_to_json data filename fs = (Inr (), fs(filename \<mapsto> encode_list (concat data)))
       \<and> json_loads (encode_list (concat data)) = Some (concat data)
       \<and> (\<forall>s. (\<forall>c \<in> set s. 128 \<le> (of_char c :: nat))
              \<longrightarrow> encode_basestring s = [dquote] @ s @ [dquote])"
proof -
  from assms(1) have "save_to_json data filename fs
      = (Inr (), fs(filename \<mapsto> encode_list (concat data)))"
    by (cases data) (simp_all add: save_to_json_def)
  moreover have "json_loads (encode_list (concat data)) = Some (concat data)"
    by (rule json_loads_encoded [OF assms(2)])
  ultimately show ?thesis
    using encode_basestring_non_ascii by blast
qed

theorem save_to_json_roundtrip_witness:
  "save_to_json [[laptop], [], [cafe, laptop]] ''computers_data.json'' Map.empty
     = (Inr (), [''computers_data.json'' \<mapsto> encode_list [laptop, cafe, laptop]])
   \<and> json_loads (encode_list [laptop, cafe, laptop]) = Some [laptop, cafe, laptop]
   \<and> encode_basestring [CHR 0xE9, CHR 0xA3] = [dquote, CHR 0xE9, CHR 0xA3, dquote]"
proof -
  have ne: "[[laptop], [], [cafe, laptop]] \<noteq> []" by simp
  have keys: "\<forall>r \<in> set (concat [[laptop], [], [cafe, laptop]]). distinct (map fst r)"
    by (simp add: laptop_def cafe_def)
  have high: "\<forall>c \<in> set [CHR 0xE9, CHR 0xA3]. 128 \<le> (of_char c :: nat)" by simp
  from save_to_json_roundtrip [OF ne keys, of "''computers_data.json''" Map.empty] high
  show ?thesis by simp
qed

end
